theory Spec2Isabelle
  imports Complex_Main "HOL-Library.Word" "HOL-Library.Multiset" "HOL-Library.Product_Lexorder"
begin

unbundle bit_operations_syntax

chapter \<open>Goldcoin Proof of Participation: embedding of the consensus core\<close>

section \<open>Machine integers\<close>

text \<open>
  \<open>int\<close> and \<open>int64_t\<close> values are integers with the range written out; an
  operation whose C++ behaviour is undefined (signed overflow, a shift count outside
  \<open>[0, 64)\<close>) yields \<open>None\<close>.  \<open>unsigned int\<close>, \<open>size_t\<close> and \<open>uint256\<close>
  are words, whose arithmetic wraps.
\<close>

definition in_int64 :: "int \<Rightarrow> bool" where
  "in_int64 v = (- (2 ^ 63) \<le> v \<and> v < 2 ^ 63)"

text \<open>C++ integer division truncates towards zero.\<close>

definition cdiv :: "int \<Rightarrow> int \<Rightarrow> int" where
  "cdiv a b = sgn a * sgn b * (\<bar>a\<bar> div \<bar>b\<bar>)"

definition COIN :: int where
  "COIN = 100000000"

section \<open>Activation and proof of work (goldcoin.h, hardfork.cpp, main.h, bignum)\<close>

definition HARD_FORK_HEIGHT :: int where
  "HARD_FORK_HEIGHT = 3500000"

definition IsProofOfParticipationActive :: "int \<Rightarrow> bool" where
  "IsProofOfParticipationActive nHeight = (nHeight \<ge> HARD_FORK_HEIGHT)"

text \<open>
  \<open>CBigNum::SetCompact\<close>: the target a compact \<open>nBits\<close> value stands for.  The top
  byte is a size in bytes, bit 23 the sign, the low 23 bits the mantissa.
\<close>

definition SetCompact :: "32 word \<Rightarrow> int" where
  "SetCompact nCompact =
     (let nSize = unat (drop_bit 24 nCompact);
          fNegative = (nCompact AND 0x00800000 \<noteq> 0);
          nWord = nCompact AND 0x007fffff;
          v = (if nSize \<le> 3 then uint (drop_bit (8 * (3 - nSize)) nWord)
               else uint nWord * 2 ^ (8 * (nSize - 3)))
      in if fNegative then - v else v)"

text \<open>
  \<open>CheckProofOfWork\<close> of the simplified \<open>main.h\<close>: both arguments are ignored.
\<close>

definition CheckProofOfWork :: "256 word \<Rightarrow> 32 word \<Rightarrow> bool" where
  "CheckProofOfWork hash nBits = True"

text \<open>
  The block as \<open>HardForkManager\<close> reads it, through the values that \<open>GetHash()\<close>
  and \<open>GetWorkRequired()\<close> return for it and through \<open>vtx.size()\<close>.
\<close>

record fork_block =
  blk_hash :: "256 word"
  blk_work_required :: "256 word"
  blk_vtx_count :: nat

definition MINIMUM_STAKE :: int where
  "MINIMUM_STAKE = 100 * COIN"

definition STAKE_MATURITY :: int where
  "STAKE_MATURITY = 1440"

definition ValidatePoWBlock :: "fork_block \<Rightarrow> int \<Rightarrow> bool" where
  "ValidatePoWBlock block nHeight =
     (if blk_hash block > blk_work_required block then False else True)"

text \<open>The three helpers of \<open>ValidatePoPBlock\<close> are placeholders returning constants.\<close>

definition GetStakeAmount :: int where
  "GetStakeAmount = 100 * COIN"

definition GetStakeAge :: "int \<Rightarrow> int" where
  "GetStakeAge nCurrentHeight = STAKE_MATURITY + 1"

definition VerifyLotteryWin :: "fork_block \<Rightarrow> int \<Rightarrow> bool" where
  "VerifyLotteryWin block nHeight = True"

text \<open>\<open>block.vtx[0]\<close> on an empty \<open>vtx\<close> is undefined: \<open>None\<close>.\<close>

definition ValidatePoPBlock :: "fork_block \<Rightarrow> int \<Rightarrow> bool option" where
  "ValidatePoPBlock block nHeight =
     (if blk_vtx_count block = 0 then None
      else if GetStakeAmount < MINIMUM_STAKE then Some False
      else if GetStakeAge nHeight < STAKE_MATURITY then Some False
      else if \<not> VerifyLotteryWin block nHeight then Some False
      else Some True)"

definition ValidateBlock :: "fork_block \<Rightarrow> int \<Rightarrow> bool option" where
  "ValidateBlock block nHeight =
     (if IsProofOfParticipationActive nHeight then ValidatePoPBlock block nHeight
      else Some (ValidatePoWBlock block nHeight))"

section \<open>Block reward (participation.cpp and goldcoin.h)\<close>

text \<open>
  \<open>GetBlockValue\<close> of \<open>participation.cpp\<close>: \<open>50 * COIN\<close> shifted right by
  \<open>nHeight / 840000\<close>, raised to \<open>COIN\<close> when below it, plus the fees.
\<close>

definition GetBlockValue :: "int \<Rightarrow> int \<Rightarrow> int option" where
  "GetBlockValue nHeight nFees =
     (let sh = cdiv nHeight 840000 in
      if sh < 0 \<or> sh \<ge> 64 then None
      else
        let nSubsidy = (50 * COIN) div 2 ^ nat sh;
            nSubsidy = (if nSubsidy < COIN then COIN else nSubsidy)
        in if in_int64 (nSubsidy + nFees) then Some (nSubsidy + nFees) else None)"

text \<open>\<open>goldcoin::GetBlockValue\<close> of \<open>goldcoin.h\<close>: a stepped schedule.\<close>

definition goldcoin_GetBlockValue :: "int \<Rightarrow> int \<Rightarrow> int option" where
  "goldcoin_GetBlockValue nHeight nFees =
     (let nSubsidy =
            (if nHeight < 840000 then 50 * COIN
             else if nHeight < 1680000 then 25 * COIN
             else if nHeight < 2520000 then 10 * COIN
             else if nHeight < 3360000 then 5 * COIN
             else 2 * COIN)
      in if in_int64 (nSubsidy + nFees) then Some (nSubsidy + nFees) else None)"

text \<open>
  The schedule in the specification's words: the initial subsidy shifted right once per
  halving interval, clamped below to the floor.
\<close>

definition subsidy :: "int \<Rightarrow> int" where
  "subsidy h = max COIN ((50 * COIN) div 2 ^ nat (h div 840000))"

section \<open>Serialization codec (serialize.h)\<close>

datatype Error = buffer_overflow | invalid_format | size_too_large | unexpected_end
  | invalid_variant_index

type_synonym byte_t = "8 word"

definition MAX_SIZE :: nat where
  "MAX_SIZE = 0x02000000"

text \<open>
  \<open>Buffer\<close>: a span of bytes of fixed size and a cursor.  The constructor sets the
  cursor to 0 and every method keeps it within the span, so \<open>remaining\<close> never wraps.
\<close>

record Buffer =
  buf_data :: "byte_t list"
  buf_pos :: nat

definition Buffer_of :: "byte_t list \<Rightarrow> Buffer" where
  "Buffer_of d = \<lparr>buf_data = d, buf_pos = 0\<rparr>"

definition remaining :: "Buffer \<Rightarrow> nat" where
  "remaining b = length (buf_data b) - buf_pos b"

definition has_space :: "Buffer \<Rightarrow> nat \<Rightarrow> bool" where
  "has_space b n = (remaining b \<ge> n)"

text \<open>
  A fallible operation on a buffer returns its result together with the buffer as it
  left it; \<open>and_then\<close> is the source's \<open>if (auto r = ...; !r) return r;\<close>.
\<close>

definition and_then ::
  "(Error + 'a) \<times> Buffer \<Rightarrow> ('a \<Rightarrow> Buffer \<Rightarrow> (Error + 'b) \<times> Buffer) \<Rightarrow> (Error + 'b) \<times> Buffer" where
  "and_then r f = (case r of (Inl e, b) \<Rightarrow> (Inl e, b) | (Inr x, b) \<Rightarrow> f x b)"

definition write_bytes :: "byte_t list \<Rightarrow> Buffer \<Rightarrow> (Error + unit) \<times> Buffer" where
  "write_bytes bytes b =
     (if \<not> has_space b (length bytes) then (Inl buffer_overflow, b)
      else (Inr (),
            b\<lparr>buf_data := take (buf_pos b) (buf_data b) @ bytes
                            @ drop (buf_pos b + length bytes) (buf_data b),
              buf_pos := buf_pos b + length bytes\<rparr>))"

definition read_bytes :: "nat \<Rightarrow> Buffer \<Rightarrow> (Error + byte_t list) \<times> Buffer" where
  "read_bytes n b =
     (if \<not> has_space b n then (Inl unexpected_end, b)
      else (Inr (take n (drop (buf_pos b) (buf_data b))), b\<lparr>buf_pos := buf_pos b + n\<rparr>))"

definition reset :: "Buffer \<Rightarrow> Buffer" where
  "reset b = b\<lparr>buf_pos := 0\<rparr>"

definition position :: "Buffer \<Rightarrow> nat" where
  "position b = buf_pos b"

text \<open>The little-endian object representation of an unsigned integer, and back.\<close>

fun le_bytes :: "nat \<Rightarrow> nat \<Rightarrow> byte_t list" where
  "le_bytes 0 v = []"
| "le_bytes (Suc k) v = of_nat (v mod 256) # le_bytes k (v div 256)"

fun le_value :: "byte_t list \<Rightarrow> nat" where
  "le_value [] = 0"
| "le_value (x # xs) = unat x + 256 * le_value xs"

text \<open>\<open>Buffer::write<T>\<close> and \<open>Buffer::read<T>\<close> at an unsigned type of \<open>LENGTH('a)\<close> bits.\<close>

definition Buffer_write :: "'a::len word \<Rightarrow> Buffer \<Rightarrow> (Error + unit) \<times> Buffer" where
  "Buffer_write v b = write_bytes (le_bytes (LENGTH('a) div 8) (unat v)) b"

definition Buffer_read :: "'a::len itself \<Rightarrow> Buffer \<Rightarrow> (Error + 'a word) \<times> Buffer" where
  "Buffer_read T b =
     and_then (read_bytes (LENGTH('a) div 8) b) (\<lambda>bytes b'. (Inr (of_nat (le_value bytes)), b'))"

definition encoded_size :: "64 word \<Rightarrow> nat" where
  "encoded_size n =
     (if n < 253 then 1
      else if n \<le> 0xFFFF then 3
      else if n \<le> 0xFFFFFFFF then 5
      else 9)"

definition CompactSize_serialize :: "64 word \<Rightarrow> Buffer \<Rightarrow> (Error + unit) \<times> Buffer" where
  "CompactSize_serialize n buffer =
     (if n < 253 then Buffer_write (ucast n :: 8 word) buffer
      else if n \<le> 0xFFFF then
        and_then (Buffer_write (253 :: 8 word) buffer) (\<lambda>_. Buffer_write (ucast n :: 16 word))
      else if n \<le> 0xFFFFFFFF then
        and_then (Buffer_write (254 :: 8 word) buffer) (\<lambda>_. Buffer_write (ucast n :: 32 word))
      else
        and_then (Buffer_write (255 :: 8 word) buffer) (\<lambda>_. Buffer_write n))"

definition CompactSize_deserialize :: "Buffer \<Rightarrow> (Error + 64 word) \<times> Buffer" where
  "CompactSize_deserialize buffer =
     and_then (Buffer_read TYPE(8) buffer) (\<lambda>first b.
       if first < 253 then (Inr (ucast first), b)
       else
         and_then
           (if first = 253 then and_then (Buffer_read TYPE(16) b) (\<lambda>v b'. (Inr (ucast v), b'))
            else if first = 254 then and_then (Buffer_read TYPE(32) b) (\<lambda>v b'. (Inr (ucast v), b'))
            else Buffer_read TYPE(64) b)
           (\<lambda>v b'. if unat v > MAX_SIZE then (Inl size_too_large, b') else (Inr v, b')))"

text \<open>
  The values the \<open>Serializer\<close> specialisations cover: a primitive (its object
  representation, little-endian), a string, a vector and a byte array.
\<close>

datatype svalue = Prim "byte_t list" | Str "byte_t list" | Vec "svalue list" | Arr "byte_t list"

fun serialize :: "svalue \<Rightarrow> Buffer \<Rightarrow> (Error + unit) \<times> Buffer"
  and serialize_items :: "svalue list \<Rightarrow> Buffer \<Rightarrow> (Error + unit) \<times> Buffer" where
  "serialize (Prim bytes) buffer = write_bytes bytes buffer"
| "serialize (Str str) buffer =
     (case CompactSize_serialize (of_nat (length str)) buffer of
        (Inl e, b) \<Rightarrow> (Inl e, b)
      | (Inr _, b) \<Rightarrow> write_bytes str b)"
| "serialize (Vec vec) buffer =
     (case CompactSize_serialize (of_nat (length vec)) buffer of
        (Inl e, b) \<Rightarrow> (Inl e, b)
      | (Inr _, b) \<Rightarrow> serialize_items vec b)"
| "serialize (Arr arr) buffer = write_bytes arr buffer"
| "serialize_items [] buffer = (Inr (), buffer)"
| "serialize_items (item # items) buffer =
     (case serialize item buffer of
        (Inl e, b) \<Rightarrow> (Inl e, b)
      | (Inr _, b) \<Rightarrow> serialize_items items b)"

definition to_bytes :: "svalue \<Rightarrow> Error + byte_t list" where
  "to_bytes v =
     (let bytes = replicate 1024 0;
          (r, buffer) = serialize v (Buffer_of bytes)
      in case r of
           Inl e \<Rightarrow> Inl e
         | Inr _ \<Rightarrow> Inr (take (position buffer) (buf_data buffer)))"

text \<open>
  The encoding in the specification's words: the size prefix is one byte below 253,
  \<open>0xFD\<close> and 2 bytes up to \<open>0xFFFF\<close>, \<open>0xFE\<close> and 4 bytes up to \<open>0xFFFFFFFF\<close>,
  \<open>0xFF\<close> and 8 bytes otherwise, little-endian; a sequence is its size prefix followed
  by the encodings of its elements.
\<close>

definition compact_bytes :: "64 word \<Rightarrow> byte_t list" where
  "compact_bytes n =
     (if n < 253 then [ucast n]
      else if n \<le> 0xFFFF then 253 # le_bytes 2 (unat n)
      else if n \<le> 0xFFFFFFFF then 254 # le_bytes 4 (unat n)
      else 255 # le_bytes 8 (unat n))"

fun encoding :: "svalue \<Rightarrow> byte_t list" where
  "encoding (Prim bytes) = bytes"
| "encoding (Str str) = compact_bytes (of_nat (length str)) @ str"
| "encoding (Vec vec) = compact_bytes (of_nat (length vec)) @ concat (map encoding vec)"
| "encoding (Arr arr) = arr"

text \<open>
  \<open>wrote r b bs\<close>: started on \<open>b\<close>, an operation with outcome \<open>r\<close> has put \<open>bs\<close> at
  the cursor and advanced it, or has failed with \<open>buffer_overflow\<close> for lack of room.
\<close>

definition wrote :: "(Error + unit) \<times> Buffer \<Rightarrow> Buffer \<Rightarrow> byte_t list \<Rightarrow> bool" where
  "wrote r b bs =
     (if length bs \<le> remaining b
      then r = (Inr (), \<lparr>buf_data = take (buf_pos b) (buf_data b) @ bs
                                      @ drop (buf_pos b + length bs) (buf_data b),
                         buf_pos = buf_pos b + length bs\<rparr>)
      else fst r = Inl buffer_overflow)"

section \<open>Participant registry and lottery (participation.h)\<close>

text \<open>
  \<open>height\<close> is an \<open>int\<close> of 32 bits.  \<open>isMatured\<close> subtracts two of them: the
  difference is the machine's, which wraps around at \<open>2 ^ 31\<close>, read as a signed number.
\<close>

record ParticipationEntry =
  txid :: "256 word"
  amount :: int
  address :: "160 word"
  height :: "32 word"

definition isMatured :: "ParticipationEntry \<Rightarrow> 32 word \<Rightarrow> bool" where
  "isMatured p currentHeight = (sint (currentHeight - height p) \<ge> STAKE_MATURITY)"

text \<open>\<open>ParticipationValidator\<close>: the registry is the vector \<open>activeParticipants\<close>.\<close>

record ParticipationValidator =
  activeParticipants :: "ParticipationEntry list"

definition ParticipationValidator_init :: ParticipationValidator where
  "ParticipationValidator_init = \<lparr>activeParticipants = []\<rparr>"

definition addParticipant :: "ParticipationEntry \<Rightarrow> ParticipationValidator \<Rightarrow> ParticipationValidator" where
  "addParticipant entry v = v\<lparr>activeParticipants := activeParticipants v @ [entry]\<rparr>"

definition removeParticipant :: "256 word \<Rightarrow> ParticipationValidator \<Rightarrow> ParticipationValidator" where
  "removeParticipant t v =
     v\<lparr>activeParticipants := filter (\<lambda>p. \<not> txid p = t) (activeParticipants v)\<rparr>"

definition getActiveParticipants ::
  "ParticipationValidator \<Rightarrow> 32 word \<Rightarrow> ParticipationEntry list" where
  "getActiveParticipants v currentHeight =
     filter (\<lambda>p. isMatured p currentHeight) (activeParticipants v)"

text \<open>
  \<open>VRF::selectWinner\<close>.  The hash function is a parameter: \<open>hash64 seed blockHeight\<close>
  stands for \<open>Hash(seed, blockHeight).Get64()\<close>; the height is an \<open>int64_t\<close> here.
\<close>

definition selectWinner ::
  "(256 word \<Rightarrow> 64 word \<Rightarrow> 64 word) \<Rightarrow> 256 word \<Rightarrow> ParticipationEntry list \<Rightarrow> 64 word
     \<Rightarrow> ParticipationEntry option" where
  "selectWinner hash64 seed participants blockHeight =
     (if participants = [] then None
      else
        let winnerIndex = unat (hash64 seed blockHeight) mod length participants
        in Some (participants ! winnerIndex))"

definition checkParticipation ::
  "(256 word \<Rightarrow> 64 word \<Rightarrow> 64 word) \<Rightarrow> ParticipationValidator \<Rightarrow> 256 word \<Rightarrow> 256 word
     \<Rightarrow> 32 word \<Rightarrow> bool" where
  "checkParticipation hash64 v myAddress previousBlockHash currentHeight =
     (let participants = getActiveParticipants v currentHeight in
      if participants = [] then False
      else
        (case selectWinner hash64 previousBlockHash participants (scast currentHeight) of
           None \<Rightarrow> False
         | Some winner \<Rightarrow> address winner = ucast myAddress))"

section \<open>Wallet eligibility (participation_modern.h, participation_modern.cpp)\<close>

text \<open>
  The constants of namespace \<open>goldcoin::pop\<close>, whose \<open>MINIMUM_STAKE\<close> is
  \<open>pop_MINIMUM_STAKE\<close> here; \<open>MAX_INACTIVITY\<close> is 90 days, in seconds.  The
  \<open>NetworkError\<close> of \<open>ParticipationError\<close> is \<open>PoP_NetworkError\<close>, apart from that of
  \<open>FeeError\<close>.
\<close>

definition pop_MINIMUM_STAKE :: int where
  "pop_MINIMUM_STAKE = 1000 * COIN"

definition STAKE_MATURITY_BLOCKS :: int where
  "STAKE_MATURITY_BLOCKS = 1440"

definition MIN_TRANSACTIONS :: int where
  "MIN_TRANSACTIONS = 10"

definition MIN_UNIQUE_COUNTERPARTIES :: int where
  "MIN_UNIQUE_COUNTERPARTIES = 5"

definition MAX_INACTIVITY :: real where
  "MAX_INACTIVITY = 90 * 86400"

datatype ParticipationError = InsufficientStake | ImmatureCoins | InsufficientActivity
  | TooManySubnetNodes | InvalidVRF | PoP_NetworkError

text \<open>A time point is the number of seconds since the epoch of the clock, a real.\<close>

record WalletMetrics =
  balance :: int
  coin_age_blocks :: int
  transaction_count :: int
  unique_counterparties :: int
  last_transaction :: real
  first_seen :: real
  uptime_ratio :: real
  transactions_relayed :: int
  ip_address :: "32 word"

text \<open>
  \<open>ValidateParticipation\<close>; what \<open>std::chrono::system_clock::now()\<close> returns is the
  parameter \<open>now\<close>.
\<close>

definition ValidateParticipation :: "real \<Rightarrow> WalletMetrics \<Rightarrow> ParticipationError + bool" where
  "ValidateParticipation now metrics =
     (if balance metrics < pop_MINIMUM_STAKE then Inl InsufficientStake
      else if coin_age_blocks metrics < STAKE_MATURITY_BLOCKS then Inl ImmatureCoins
      else if transaction_count metrics < MIN_TRANSACTIONS then Inl InsufficientActivity
      else if unique_counterparties metrics < MIN_UNIQUE_COUNTERPARTIES
        then Inl InsufficientActivity
      else if now - last_transaction metrics > MAX_INACTIVITY then Inl InsufficientActivity
      else Inr True)"

section \<open>Lottery by threshold (vrf.h, participation_modern.cpp)\<close>






record LotteryResult =
  lr_hash :: "byte_t list"
  lr_proof :: "byte_t list"
  is_winner :: bool
  probability :: real


definition VerifyLottery ::
  "(byte_t list \<Rightarrow> byte_t list \<Rightarrow> byte_t list) \<Rightarrow> LotteryResult \<Rightarrow> byte_t list \<Rightarrow> byte_t list
     \<Rightarrow> ParticipationError + bool" where
  "VerifyLottery HashToTarget result block_seed participant_key =
     (let expected_hash = HashToTarget block_seed participant_key
      in Inr (lr_hash result = expected_hash))"


section \<open>Peer connection (net.h)\<close>

text \<open>
  The handshake state of a \<open>Node\<close> and its send queue.  \<open>PushMessage\<close> drops a
  message whose payload \<open>to_bytes\<close> cannot serialize.
\<close>

record Node =
  version_sent :: bool
  version_received :: bool
  send_queue :: "(string \<times> byte_t list) list"

definition Node_init :: Node where
  "Node_init = \<lparr>version_sent = False, version_received = False, send_queue = []\<rparr>"

definition PushMessage :: "string \<Rightarrow> svalue \<Rightarrow> Node \<Rightarrow> Node" where
  "PushMessage command payload n =
     (case to_bytes payload of
        Inl e \<Rightarrow> n
      | Inr bytes \<Rightarrow> n\<lparr>send_queue := send_queue n @ [(command, bytes)]\<rparr>)"

definition PushVersion :: "svalue \<Rightarrow> Node \<Rightarrow> Node" where
  "PushVersion version n = (PushMessage ''version'' version n)\<lparr>version_sent := True\<rparr>"

definition IsFullyConnected :: "Node \<Rightarrow> bool" where
  "IsFullyConnected n = (version_sent n \<and> version_received n)"

definition ProcessMessage :: "string \<Rightarrow> byte_t list \<Rightarrow> Node \<Rightarrow> Node" where
  "ProcessMessage command payload n =
     (if command = ''version'' then PushMessage ''verack'' (Arr []) (n\<lparr>version_received := True\<rparr>)
      else if command = ''verack'' then n
      else if command = ''ping'' then PushMessage ''pong'' (Arr []) n
      else n)"

text \<open>What happens to a connection: the node sends its version, or a message arrives.\<close>

datatype peer_event = Sends_version svalue | Receives string "byte_t list"

fun peer_step :: "Node \<Rightarrow> peer_event \<Rightarrow> Node" where
  "peer_step n (Sends_version version) = PushVersion version n"
| "peer_step n (Receives command payload) = ProcessMessage command payload n"

definition peer_run :: "peer_event list \<Rightarrow> Node" where
  "peer_run evs = foldl peer_step Node_init evs"

section \<open>Blocks and transactions (the simplified main.h)\<close>




text \<open>
  Modelled from the spec: \<open>COutPoint\<close> and \<open>CTxIn\<close>, which \<open>main.h\<close> declares and
  does not define.  An outpoint is a transaction hash and an index; the null outpoint
  (hash zero, index \<open>0xFFFFFFFF\<close>) marks a coinbase input.  An input is an outpoint, a
  signature script and a sequence number.
\<close>

record COutPoint =
  op_hash :: "256 word"
  op_n :: "32 word"


record CTxIn =
  prevout :: COutPoint
  scriptSig :: "byte_t list"
  nSequence :: "32 word"

record CTxOut =
  nValue :: int
  scriptPubKey :: "byte_t list"

record CTransaction =
  nVersion :: int
  vin :: "CTxIn list"
  vout :: "CTxOut list"
  nLockTime :: "32 word"


record CBlock =
  blk_nVersion :: int
  hashPrevBlock :: "256 word"
  hashMerkleRoot :: "256 word"
  nTime :: "32 word"
  nBits :: "32 word"
  nNonce :: "32 word"
  vtx :: "CTransaction list"







section \<open>Block space (hybridfee.h, hybridfee.cpp, goldcoin_consensus.h)\<close>

text \<open>
  A \<open>double\<close> enters through the real number it holds; comparisons of doubles are exact.
  \<open>tx_hash\<close> is what \<open>tx.GetHash()\<close> returns.
\<close>

record PriorityResult =
  priority_score :: real
  qualifies_for_free :: bool
  suggested_fee :: int
  category :: string

record TransactionCandidate =
  tx_hash :: "256 word"
  priority_info :: PriorityResult
  fee_paid :: int
  received_time :: int
  size_bytes :: "64 word"

record BlockTemplate =
  free_transactions :: "TransactionCandidate list"
  fee_transactions :: "TransactionCandidate list"
  total_size_bytes :: "64 word"
  total_fees_collected :: int
  free_zone_utilization_percent :: int
  total_utilization_percent :: int

definition consensus_MAX_BLOCK_SIZE :: "64 word" where
  "consensus_MAX_BLOCK_SIZE = 32000000"

definition FREE_ZONE_SIZE :: "64 word" where
  "FREE_ZONE_SIZE = consensus_MAX_BLOCK_SIZE * 5 div 100"

text \<open>The loop of \<open>SelectFreeTransactions\<close>: it stops at the first candidate that does not fit.\<close>

fun fill_free_zone :: "TransactionCandidate list \<Rightarrow> 64 word \<Rightarrow> TransactionCandidate list" where
  "fill_free_zone [] used_space = []"
| "fill_free_zone (candidate # rest) used_space =
     (if used_space + size_bytes candidate \<le> FREE_ZONE_SIZE
      then candidate # fill_free_zone rest (used_space + size_bytes candidate)
      else [])"

text \<open>
  \<open>std::ranges::sort\<close> is a parameter of the functions that call it, \<open>sort_free\<close> and
  \<open>sort_fee\<close>.  What the standard fixes of it is \<open>sorts_with\<close>: the result is a
  permutation of the range in which no element comes before one that the comparator
  puts ahead of it; the order of equivalent elements is left open.
\<close>

definition sorts_with :: "('a \<Rightarrow> 'a \<Rightarrow> bool) \<Rightarrow> ('a list \<Rightarrow> 'a list) \<Rightarrow> bool" where
  "sorts_with before srt =
     (\<forall>xs. mset (srt xs) = mset xs \<and> sorted_wrt (\<lambda>a b. \<not> before b a) (srt xs))"

text \<open>The comparator of \<open>SelectFreeTransactions\<close>: highest priority first.\<close>

definition by_priority :: "TransactionCandidate \<Rightarrow> TransactionCandidate \<Rightarrow> bool" where
  "by_priority a b = (priority_score (priority_info a) > priority_score (priority_info b))"

definition SelectFreeTransactions ::
  "(TransactionCandidate list \<Rightarrow> TransactionCandidate list) \<Rightarrow> TransactionCandidate list
     \<Rightarrow> TransactionCandidate list" where
  "SelectFreeTransactions sort_free candidates =
     (let free_eligible = filter (\<lambda>c. qualifies_for_free (priority_info c)) candidates;
          sorted_eligible = sort_free free_eligible
      in fill_free_zone sorted_eligible 0)"

text \<open>
  The fee rate of the comparator in \<open>SelectFeeTransactions\<close>: \<open>fee_paid * 1000\<close> in 64
  signed bits, divided by the size as unsigned; \<open>None\<close> where that is undefined (the
  product overflows, or the size is 0).
\<close>

definition fee_rate :: "TransactionCandidate \<Rightarrow> int option" where
  "fee_rate c =
     (if \<not> in_int64 (fee_paid c * 1000) \<or> size_bytes c = 0 then None
      else Some (sint (word_of_int (fee_paid c * 1000) div size_bytes c)))"

text \<open>The loop of \<open>SelectFeeTransactions\<close>: it skips a candidate that does not fit.\<close>

fun fill_fee_zone :: "TransactionCandidate list \<Rightarrow> 64 word \<Rightarrow> 64 word \<Rightarrow> TransactionCandidate list" where
  "fill_fee_zone [] used_space available_space = []"
| "fill_fee_zone (candidate # rest) used_space available_space =
     (if used_space + size_bytes candidate \<le> available_space
      then candidate # fill_fee_zone rest (used_space + size_bytes candidate) available_space
      else fill_fee_zone rest used_space available_space)"

text \<open>
  The comparator of \<open>SelectFeeTransactions\<close>: highest fee rate first, then the oldest.
\<close>

definition by_fee_rate :: "TransactionCandidate \<Rightarrow> TransactionCandidate \<Rightarrow> bool" where
  "by_fee_rate a b =
     (let fee_rate_a = the (fee_rate a);
          fee_rate_b = the (fee_rate b)
      in if fee_rate_a \<noteq> fee_rate_b then fee_rate_a > fee_rate_b
         else received_time a < received_time b)"

definition SelectFeeTransactions ::
  "(TransactionCandidate list \<Rightarrow> TransactionCandidate list) \<Rightarrow> TransactionCandidate list
     \<Rightarrow> 64 word \<Rightarrow> TransactionCandidate list option" where
  "SelectFeeTransactions sort_fee candidates available_space =
     (let fee_paying = filter (\<lambda>c. fee_paid c > 0) candidates in
      if length fee_paying \<ge> 2 \<and> list_ex (\<lambda>c. fee_rate c = None) fee_paying then None
      else
        let sorted_paying = sort_fee fee_paying
        in Some (fill_fee_zone sorted_paying 0 available_space))"

definition total_size :: "TransactionCandidate list \<Rightarrow> 64 word" where
  "total_size txs = foldl (\<lambda>sum tx. sum + size_bytes tx) 0 txs"

text \<open>
  \<open>BuildBlockTemplate\<close>, up to the template it returns; the statistics it then files
  with the manager do not enter the template.  \<open>None\<close> stands for undefined behaviour
  (in the comparator, or a fee total beyond 64 signed bits).
\<close>

definition BuildBlockTemplate ::
  "(TransactionCandidate list \<Rightarrow> TransactionCandidate list)
     \<Rightarrow> (TransactionCandidate list \<Rightarrow> TransactionCandidate list)
     \<Rightarrow> TransactionCandidate list \<Rightarrow> BlockTemplate option" where
  "BuildBlockTemplate sort_free sort_fee mempool =
     (let free = SelectFreeTransactions sort_free mempool;
          free_zone_used = total_size free;
          remaining_space = consensus_MAX_BLOCK_SIZE - free_zone_used;
          remaining_candidates =
            filter (\<lambda>candidate. \<not> list_ex (\<lambda>free_tx. tx_hash free_tx = tx_hash candidate) free) mempool
      in case SelectFeeTransactions sort_fee remaining_candidates remaining_space of
           None \<Rightarrow> None
         | Some fee \<Rightarrow>
             let total = free_zone_used + total_size fee;
                 fees = sum_list (map fee_paid fee)
             in if \<not> in_int64 fees then None
                else Some \<lparr>free_transactions = free,
                           fee_transactions = fee,
                           total_size_bytes = total,
                           total_fees_collected = fees,
                           free_zone_utilization_percent =
                             sint (ucast ((free_zone_used * 100) div FREE_ZONE_SIZE) :: 32 word),
                           total_utilization_percent =
                             sint (ucast ((total * 100) div consensus_MAX_BLOCK_SIZE) :: 32 word)\<rparr>)"


section \<open>Priority and fee admission (hybridfee.cpp and the hybrid fee system)\<close>

text \<open>
  Floating point: each conversion and each arithmetic operation on a \<open>double\<close> rounds
  its exact result, and a literal stands for the double nearest to it.  The rounding is
  the parameter \<open>fl\<close> of the functions below; comparisons are exact.  The literals
  57,600,000 and 0.5 are doubles; 0.1 is not, and enters as \<open>fl (1 / 10)\<close>.
\<close>

datatype FeeError = InvalidTransaction | BlockFull | InsufficientFee | PriorityTooLow
  | NetworkError
















chapter \<open>Properties\<close>

section \<open>Proof of work\<close>

lemma SetCompact_1e0ffff0: "SetCompact 0x1e0ffff0 = 0x0ffff0 * 2 ^ 216"
  by (simp add: SetCompact_def Let_def drop_bit_eq_div)

text \<open>
  C1, as stated, fails: \<open>CheckProofOfWork\<close> accepts the all-ones hash against the
  compact target \<open>0x1e0ffff0\<close>, which that hash exceeds.
\<close>

theorem CheckProofOfWork_counterexample:
  "CheckProofOfWork (- 1) 0x1e0ffff0 \<and> \<not> uint (- 1 :: 256 word) \<le> SetCompact 0x1e0ffff0"
proof -
  have "uint (- 1 :: 256 word) = 2 ^ 256 - 1"
    by (simp add: unsigned_minus_1_eq_mask mask_eq_exp_minus_1)
  then show ?thesis
    by (simp add: CheckProofOfWork_def SetCompact_1e0ffff0)
qed

text \<open>
  C1, amended: below the activation height \<open>HardForkManager::ValidateBlock\<close> accepts a
  block exactly when its hash is at most the work required of it, while
  \<open>CheckProofOfWork\<close> returns true for every hash and every \<open>nBits\<close>.
\<close>

theorem pow_validation_paths:
  assumes "\<not> IsProofOfParticipationActive nHeight"
  shows "ValidateBlock block nHeight = Some (blk_hash block \<le> blk_work_required block)
         \<and> CheckProofOfWork hash bits"
  using assms
  by (auto simp: ValidateBlock_def ValidatePoWBlock_def CheckProofOfWork_def)

theorem pow_validation_paths_witness:
  "\<not> IsProofOfParticipationActive 3499999
   \<and> ValidateBlock \<lparr>blk_hash = 5, blk_work_required = 4, blk_vtx_count = 1\<rparr> 3499999 = Some False
   \<and> ValidateBlock \<lparr>blk_hash = 4, blk_work_required = 4, blk_vtx_count = 1\<rparr> 3499999 = Some True
   \<and> CheckProofOfWork 5 0"
proof -
  have h: "\<not> IsProofOfParticipationActive 3499999"
    by (simp add: IsProofOfParticipationActive_def HARD_FORK_HEIGHT_def)
  show ?thesis
    using h
      pow_validation_paths [OF h, of "\<lparr>blk_hash = 5, blk_work_required = 4, blk_vtx_count = 1\<rparr>" 5 0]
      pow_validation_paths [OF h, of "\<lparr>blk_hash = 4, blk_work_required = 4, blk_vtx_count = 1\<rparr>" 5 0]
    by simp
qed

section \<open>Block reward\<close>

lemma cdiv_nonneg: "0 \<le> a \<Longrightarrow> 0 < b \<Longrightarrow> cdiv a b = a div b"
  by (cases "a = 0") (simp_all add: cdiv_def)

lemma halvings_range:
  assumes "0 \<le> (h :: int)" "h < 64 * 840000"
  shows "0 \<le> h div 840000 \<and> h div 840000 < 64"
  using assms by linarith

lemma GetBlockValue_subsidy:
  assumes "0 \<le> h" "h < 64 * 840000" "in_int64 (subsidy h + f)"
  shows "GetBlockValue h f = Some (subsidy h + f)"
proof -
  have "cdiv h 840000 = h div 840000"
    using assms(1) by (simp add: cdiv_nonneg)
  moreover have "0 \<le> h div 840000 \<and> h div 840000 < 64"
    using assms(1,2) by (rule halvings_range)
  ultimately show ?thesis
    using assms(3) by (auto simp: GetBlockValue_def subsidy_def Let_def max_def)
qed

lemma subsidy_late:
  assumes "6 \<le> k"
  shows "(5000000000 :: int) div 2 ^ k < 100000000"
proof -
  have "(2 :: int) ^ 6 \<le> 2 ^ k"
    using assms by (intro power_increasing) simp_all
  then have "(5000000000 :: int) div 2 ^ k \<le> 5000000000 div 2 ^ 6"
    by (intro zdiv_mono2) simp_all
  then show ?thesis by simp
qed

lemma subsidy_cases:
  assumes "0 \<le> h"
  shows "subsidy h =
     (if h < 840000 then 5000000000 else if h < 1680000 then 2500000000
      else if h < 2520000 then 1250000000 else if h < 3360000 then 625000000
      else if h < 4200000 then 312500000 else if h < 5040000 then 156250000
      else 100000000)"
proof -
  define k where "k = nat (h div 840000)"
  have k: "int k = h div 840000"
    using assms by (simp add: k_def pos_imp_zdiv_nonneg_iff)
  have s: "subsidy h = max 100000000 (5000000000 div 2 ^ k)"
    by (simp add: subsidy_def COIN_def k_def)
  consider "k = 0" | "k = 1" | "k = 2" | "k = 3" | "k = 4" | "k = 5" | "6 \<le> k"
    by linarith
  then show ?thesis
  proof cases
    case 1
    then have "h < 840000" using k by linarith
    then show ?thesis using 1 by (simp add: s)
  next
    case 2
    then have "840000 \<le> h \<and> h < 1680000" using k by linarith
    then show ?thesis using 2 by (simp add: s)
  next
    case 3
    then have "1680000 \<le> h \<and> h < 2520000" using k by linarith
    then show ?thesis using 3 by (simp add: s)
  next
    case 4
    then have "2520000 \<le> h \<and> h < 3360000" using k by linarith
    then show ?thesis using 4 by (simp add: s)
  next
    case 5
    then have "3360000 \<le> h \<and> h < 4200000" using k by linarith
    then show ?thesis using 5 by (simp add: s)
  next
    case 6
    then have "4200000 \<le> h \<and> h < 5040000" using k by linarith
    then show ?thesis using 6 by (simp add: s)
  next
    case 7
    then have "840000 * 6 \<le> h" using k by linarith
    moreover have "subsidy h = 100000000"
      using subsidy_late [OF 7] by (simp add: s max_def)
    ultimately show ?thesis by simp
  qed
qed

lemma subsidy_bounds:
  assumes "0 \<le> h"
  shows "100000000 \<le> subsidy h \<and> subsidy h \<le> 5000000000"
  by (simp add: subsidy_cases [OF assms])

text \<open>
  C2, as stated, fails: at height 1,680,000 the shifted schedule pays 12.5 coins and
  the stepped schedule 10 coins.
\<close>

theorem GetBlockValue_counterexample:
  "GetBlockValue 1680000 0 = Some 1250000000
   \<and> goldcoin_GetBlockValue 1680000 0 = Some 1000000000"
  by (simp add: GetBlockValue_def goldcoin_GetBlockValue_def cdiv_def COIN_def in_int64_def)

text \<open>
  C2, amended: for a height in \<open>[0, 64 * 840000)\<close> and fees whose sum with the
  subsidy fits 64 signed bits, \<open>GetBlockValue\<close> of \<open>participation.cpp\<close> returns the
  shifted and clamped subsidy plus the fees; \<open>goldcoin::GetBlockValue\<close> pays 50, 25, 10,
  5 and then 2 coins, stepping at 840,000, 1,680,000, 2,520,000 and 3,360,000, plus the
  fees where that sum fits, and returns what the shift-based one returns exactly at the
  heights below 1,680,000.
\<close>

theorem GetBlockValue_schedules:
  assumes "0 \<le> h" "h < 64 * 840000" "in_int64 (subsidy h + f)"
  shows "GetBlockValue h f = Some (subsidy h + f)
         \<and> goldcoin_GetBlockValue h f =
             (let stepped = (if h < 840000 then 50 * COIN else if h < 1680000 then 25 * COIN
                             else if h < 2520000 then 10 * COIN
                             else if h < 3360000 then 5 * COIN else 2 * COIN)
              in if in_int64 (stepped + f) then Some (stepped + f) else None)
         \<and> (goldcoin_GetBlockValue h f = GetBlockValue h f) = (h < 1680000)"
proof -
  have g: "GetBlockValue h f = Some (subsidy h + f)"
    using assms by (rule GetBlockValue_subsidy)
  have s: "goldcoin_GetBlockValue h f =
             (let stepped = (if h < 840000 then 50 * COIN else if h < 1680000 then 25 * COIN
                             else if h < 2520000 then 10 * COIN
                             else if h < 3360000 then 5 * COIN else 2 * COIN)
              in if in_int64 (stepped + f) then Some (stepped + f) else None)"
    by (simp add: goldcoin_GetBlockValue_def)
  have "(goldcoin_GetBlockValue h f = Some (subsidy h + f)) = (h < 1680000)"
  proof (cases "h < 840000")
    case True
    with assms(1,3) show ?thesis
      by (simp add: goldcoin_GetBlockValue_def COIN_def subsidy_cases)
  next
    case False
    with assms(1,3) show ?thesis
      by (cases "h < 1680000")
         (auto simp: goldcoin_GetBlockValue_def COIN_def subsidy_cases split: if_splits)
  qed
  with g s show ?thesis by simp
qed

theorem GetBlockValue_schedules_witness:
  "(0 :: int) \<le> 5040000 \<and> (5040000 :: int) < 64 * 840000
   \<and> in_int64 (subsidy 5040000 + (2 ^ 63 - 1 - 100000000))
   \<and> GetBlockValue 5040000 (2 ^ 63 - 1 - 100000000) = Some (2 ^ 63 - 1)
   \<and> goldcoin_GetBlockValue 5040000 (2 ^ 63 - 1 - 100000000) = None
   \<and> GetBlockValue 100 7 = Some 5000000007
   \<and> goldcoin_GetBlockValue 100 7 = GetBlockValue 100 7"
proof -
  have s: "subsidy 5040000 = 100000000" "subsidy 100 = 5000000000"
    by (simp_all add: subsidy_def COIN_def)
  have h1: "(0 :: int) \<le> 5040000" "(5040000 :: int) < 64 * 840000"
    "in_int64 (subsidy 5040000 + (2 ^ 63 - 1 - 100000000))"
    and h2: "(0 :: int) \<le> 100" "(100 :: int) < 64 * 840000" "in_int64 (subsidy 100 + 7)"
    by (simp_all add: s in_int64_def)
  have a: "GetBlockValue 5040000 (2 ^ 63 - 1 - 100000000) = Some (2 ^ 63 - 1)
           \<and> goldcoin_GetBlockValue 5040000 (2 ^ 63 - 1 - 100000000) = None"
    using GetBlockValue_schedules [OF h1] by (simp add: s COIN_def in_int64_def)
  have b: "GetBlockValue 100 7 = Some 5000000007
           \<and> goldcoin_GetBlockValue 100 7 = GetBlockValue 100 7"
    using GetBlockValue_schedules [OF h2] by (auto simp: s)
  from a b h1 show ?thesis by blast
qed

section \<open>Serialization codec\<close>

lemma and_then_Inr [simp]: "and_then (Inr x, b) f = f x b"
  by (simp add: and_then_def)

lemma and_then_Inl [simp]: "and_then (Inl e, b) f = (Inl e, b)"
  by (simp add: and_then_def)

lemma length_le_bytes [simp]: "length (le_bytes k v) = k"
  by (induction k arbitrary: v) simp_all

lemma le_value_le_bytes: "le_value (le_bytes k v) = v mod 256 ^ k"
proof (induction k arbitrary: v)
  case 0
  then show ?case by simp
next
  case (Suc k)
  have "unat (of_nat (v mod 256) :: byte_t) = v mod 256"
    by (simp add: unat_of_nat)
  then show ?case
    by (simp add: Suc mod_mult2_eq)
qed


lemma le_bytes_mod: "k \<le> j \<Longrightarrow> le_bytes k (v mod 256 ^ j) = le_bytes k v"
proof (induction k arbitrary: v j)
  case 0
  then show ?case by simp
next
  case (Suc k)
  then obtain i where j: "j = Suc i" by (cases j) auto
  have a: "v mod (256 * 256 ^ i) mod 256 = v mod 256"
    by (simp add: mod_mod_cancel)
  have b: "v mod (256 * 256 ^ i) div 256 = (v div 256) mod 256 ^ i"
    by (simp add: mod_mult2_eq)
  show ?case using Suc.IH [of i "v div 256"] Suc.prems
    by (simp add: a b j)
qed

lemma length_compact_bytes: "length (compact_bytes n) = encoded_size n"
  by (simp add: compact_bytes_def encoded_size_def)

lemma read_bytes_at:
  "read_bytes k \<lparr>buf_data = d, buf_pos = p\<rparr> =
     (if k \<le> length d - p
      then (Inr (take k (drop p d)), \<lparr>buf_data = d, buf_pos = p + k\<rparr>)
      else (Inl unexpected_end, \<lparr>buf_data = d, buf_pos = p\<rparr>))"
  by (simp add: read_bytes_def has_space_def remaining_def)


lemma le_bytes_1: "le_bytes 1 (unat (x :: 8 word)) = [x]"
proof -
  have "unat x < 2 ^ LENGTH(8)" by (rule unsigned_less)
  then have "unat x mod 256 = unat x" by simp
  then show ?thesis by simp
qed

lemma write8: "Buffer_write (x :: 8 word) = write_bytes [x]"
  using le_bytes_1 [of x] by (simp add: Buffer_write_def fun_eq_iff)

lemma write16: "Buffer_write (ucast (n :: 64 word) :: 16 word) = write_bytes (le_bytes 2 (unat n))"
proof -
  have "unat (ucast n :: 16 word) = unat n mod 256 ^ 2"
    by (simp add: unsigned_ucast_eq take_bit_eq_mod)
  then show ?thesis
    using le_bytes_mod [of 2 2 "unat n"] by (simp add: Buffer_write_def fun_eq_iff)
qed

lemma write32: "Buffer_write (ucast (n :: 64 word) :: 32 word) = write_bytes (le_bytes 4 (unat n))"
proof -
  have "unat (ucast n :: 32 word) = unat n mod 256 ^ 4"
    by (simp add: unsigned_ucast_eq take_bit_eq_mod)
  then show ?thesis
    using le_bytes_mod [of 4 4 "unat n"] by (simp add: Buffer_write_def fun_eq_iff)
qed

lemma write64: "Buffer_write (n :: 64 word) = write_bytes (le_bytes 8 (unat n))"
  by (simp add: Buffer_write_def fun_eq_iff)


lemma read8_at0:
  "Buffer_read TYPE(8) \<lparr>buf_data = x # xs, buf_pos = 0\<rparr> = (Inr x, \<lparr>buf_data = x # xs, buf_pos = 1\<rparr>)"
  by (simp add: Buffer_read_def read_bytes_at)

lemma read_le_at1:
  assumes "LENGTH('a::len) div 8 = k"
  shows "Buffer_read TYPE('a) \<lparr>buf_data = t # le_bytes k v @ rest, buf_pos = Suc 0\<rparr> =
           (Inr (of_nat (v mod 256 ^ k)), \<lparr>buf_data = t # le_bytes k v @ rest, buf_pos = 1 + k\<rparr>)"
  using assms by (simp add: Buffer_read_def read_bytes_at le_value_le_bytes)

lemma widen_small:
  assumes "unat (n :: 64 word) < 2 ^ LENGTH('a::len)"
  shows "(ucast (of_nat (unat n) :: 'a word) :: 64 word) = n"
proof -
  have "take_bit LENGTH('a) (unat n) = unat n"
    using assms by (simp add: take_bit_nat_eq_self)
  then have "unat (ucast (ucast n :: 'a word) :: 64 word) = unat n"
    by (simp add: unsigned_ucast_eq unsigned_take_bit_eq)
  then show ?thesis
    by (simp add: word_unat_eq_iff)
qed


lemma narrow_byte:
  assumes "unat (n :: 64 word) < 253"
  shows "(ucast n :: 8 word) < 253" and "(ucast (ucast n :: 8 word) :: 64 word) = n"
proof -
  have u: "unat (ucast n :: 8 word) = unat n"
    using assms by (simp add: unsigned_ucast_eq take_bit_nat_eq_self)
  then show "(ucast n :: 8 word) < 253"
    using assms by (simp add: word_less_nat_alt)
  have "unat n < 2 ^ LENGTH(8)" using assms by simp
  then show "(ucast (ucast n :: 8 word) :: 64 word) = n"
    using widen_small [where 'a = 8, of n] by simp
qed

lemma CompactSize_deserialize_bytes:
  "CompactSize_deserialize \<lparr>buf_data = compact_bytes n @ rest, buf_pos = 0\<rparr> =
     (if unat n \<le> MAX_SIZE then Inr n else Inl size_too_large,
      \<lparr>buf_data = compact_bytes n @ rest, buf_pos = encoded_size n\<rparr>)"
proof -
  consider "n < 253" | "\<not> n < 253" "n \<le> 0xFFFF"
    | "\<not> n < 253" "\<not> n \<le> 0xFFFF" "n \<le> 0xFFFFFFFF"
    | "\<not> n < 253" "\<not> n \<le> 0xFFFF" "\<not> n \<le> 0xFFFFFFFF"
    by blast
  then show ?thesis
  proof cases
    case 1
    then have u: "unat n < 253" by (simp add: word_less_nat_alt)
    then have "unat n \<le> MAX_SIZE" by (simp add: MAX_SIZE_def)
    then show ?thesis
      using 1 narrow_byte [OF u]
      by (simp add: CompactSize_deserialize_def compact_bytes_def encoded_size_def read8_at0)
  next
    case 2
    then have u: "unat n < 65536" by (simp add: word_le_nat_alt)
    then have m: "unat n \<le> MAX_SIZE" by (simp add: MAX_SIZE_def)
    have w: "(ucast (ucast n :: 16 word) :: 64 word) = n"
      using widen_small [where 'a = 16, of n] u by simp
    have r: "Buffer_read TYPE(16) \<lparr>buf_data = 253 # le_bytes 2 (unat n) @ rest, buf_pos = Suc 0\<rparr> =
               (Inr (of_nat (unat n)), \<lparr>buf_data = 253 # le_bytes 2 (unat n) @ rest, buf_pos = 3\<rparr>)"
      using read_le_at1 [where 'a = 16, of 2 253 "unat n" rest] u by simp
    show ?thesis
      using 2 m
      by (simp add: CompactSize_deserialize_def compact_bytes_def encoded_size_def read8_at0 r w)
  next
    case 3
    then have u: "unat n < 4294967296" by (simp add: word_le_nat_alt)
    have w: "(ucast (ucast n :: 32 word) :: 64 word) = n"
      using widen_small [where 'a = 32, of n] u by simp
    have r: "Buffer_read TYPE(32) \<lparr>buf_data = 254 # le_bytes 4 (unat n) @ rest, buf_pos = Suc 0\<rparr> =
               (Inr (of_nat (unat n)), \<lparr>buf_data = 254 # le_bytes 4 (unat n) @ rest, buf_pos = 5\<rparr>)"
      using read_le_at1 [where 'a = 32, of 4 254 "unat n" rest] u by simp
    show ?thesis
      using 3
      by (simp add: CompactSize_deserialize_def compact_bytes_def encoded_size_def read8_at0 r w)
  next
    case 4
    then have u: "\<not> unat n \<le> MAX_SIZE" by (simp add: word_le_nat_alt MAX_SIZE_def)
    have "unat n < 2 ^ LENGTH(64)" by (rule unsigned_less)
    then have r: "Buffer_read TYPE(64) \<lparr>buf_data = 255 # le_bytes 8 (unat n) @ rest, buf_pos = Suc 0\<rparr> =
               (Inr n, \<lparr>buf_data = 255 # le_bytes 8 (unat n) @ rest, buf_pos = 9\<rparr>)"
      using read_le_at1 [where 'a = 64, of 8 255 "unat n" rest] by simp
    show ?thesis
      using 4 u
      by (simp add: CompactSize_deserialize_def compact_bytes_def encoded_size_def read8_at0 r)
  qed
qed


lemma wrote_write_bytes: "wrote (write_bytes bs b) b bs"
  by (simp add: wrote_def write_bytes_def has_space_def)

lemma wrote_seq:
  assumes "buf_pos b \<le> length (buf_data b)"
    and "wrote r b bs1"
    and "\<And>b1. buf_pos b1 \<le> length (buf_data b1) \<Longrightarrow> wrote (f b1) b1 bs2"
  shows "wrote (case r of (Inl e, b') \<Rightarrow> (Inl e, b') | (Inr u, b') \<Rightarrow> f b') b (bs1 @ bs2)"
proof (cases "length bs1 \<le> remaining b")
  case False
  then show ?thesis
    using assms(2) by (cases r) (auto simp: wrote_def)
next
  case True
  define b1 where "b1 = \<lparr>buf_data = take (buf_pos b) (buf_data b) @ bs1
                                      @ drop (buf_pos b + length bs1) (buf_data b),
                         buf_pos = buf_pos b + length bs1\<rparr>"
  have r: "r = (Inr (), b1)"
    using assms(2) True by (simp add: wrote_def b1_def)
  have p1: "buf_pos b1 \<le> length (buf_data b1)"
    using True assms(1) by (simp add: b1_def remaining_def)
  have rem: "remaining b1 = remaining b - length bs1"
    using True assms(1) by (simp add: b1_def remaining_def)
  have w: "wrote (f b1) b1 bs2"
    using p1 by (rule assms(3))
  show ?thesis
  proof (cases "length bs2 \<le> remaining b1")
    case False
    then show ?thesis
      using w rem True by (auto simp: r wrote_def)
  next
    case True2: True
    have "take (buf_pos b1) (buf_data b1) = take (buf_pos b) (buf_data b) @ bs1"
      using assms(1) by (simp add: b1_def)
    moreover have "drop (buf_pos b1 + length bs2) (buf_data b1)
                   = drop (buf_pos b + length bs1 + length bs2) (buf_data b)"
      using assms(1) by (simp add: b1_def add.commute add.left_commute)
    moreover have "buf_pos b1 = buf_pos b + length bs1"
      by (simp add: b1_def)
    ultimately show ?thesis
      using w rem True True2 by (auto simp: r wrote_def add.assoc)
  qed
qed


lemma wrote_and_then:
  assumes "buf_pos b \<le> length (buf_data b)"
    and "wrote r b bs1"
    and "\<And>b1. buf_pos b1 \<le> length (buf_data b1) \<Longrightarrow> wrote (f b1) b1 bs2"
  shows "wrote (and_then r (\<lambda>_. f)) b (bs1 @ bs2)"
  unfolding and_then_def using assms by (rule wrote_seq)

lemma wrote_tagged:
  assumes "buf_pos b \<le> length (buf_data b)"
  shows "wrote (and_then (write_bytes [t] b) (\<lambda>_. write_bytes bs)) b (t # bs)"
  using wrote_and_then [OF assms wrote_write_bytes [of "[t]" b], of "write_bytes bs" bs]
  by (simp add: wrote_write_bytes)

lemma wrote_CompactSize:
  assumes "buf_pos b \<le> length (buf_data b)"
  shows "wrote (CompactSize_serialize n b) b (compact_bytes n)"
proof -
  consider "n < 253" | "\<not> n < 253" "n \<le> 0xFFFF"
    | "\<not> n < 253" "\<not> n \<le> 0xFFFF" "n \<le> 0xFFFFFFFF"
    | "\<not> n < 253" "\<not> n \<le> 0xFFFF" "\<not> n \<le> 0xFFFFFFFF"
    by blast
  then show ?thesis
  proof cases
    case 1
    then show ?thesis
      by (simp add: CompactSize_serialize_def compact_bytes_def write8 wrote_write_bytes)
  next
    case 2
    then show ?thesis
      using wrote_tagged [OF assms, of 253 "le_bytes 2 (unat n)"]
      by (simp add: CompactSize_serialize_def compact_bytes_def write8 write16)
  next
    case 3
    then show ?thesis
      using wrote_tagged [OF assms, of 254 "le_bytes 4 (unat n)"]
      by (simp add: CompactSize_serialize_def compact_bytes_def write8 write32)
  next
    case 4
    then show ?thesis
      using wrote_tagged [OF assms, of 255 "le_bytes 8 (unat n)"]
      by (simp add: CompactSize_serialize_def compact_bytes_def write8 write64)
  qed
qed

lemma wrote_nothing:
  assumes "buf_pos b \<le> length (buf_data b)"
  shows "wrote (Inr (), b) b []"
  using assms by (simp add: wrote_def)

lemma wrote_serialize_items:
  assumes "\<And>v b. v \<in> set vs \<Longrightarrow> buf_pos b \<le> length (buf_data b)
             \<Longrightarrow> wrote (serialize v b) b (encoding v)"
    and "buf_pos b \<le> length (buf_data b)"
  shows "wrote (serialize_items vs b) b (concat (map encoding vs))"
  using assms
proof (induction vs arbitrary: b)
  case Nil
  then show ?case by (simp add: wrote_nothing)
next
  case (Cons v vs)
  have "wrote (case serialize v b of (Inl e, b') \<Rightarrow> (Inl e, b')
               | (Inr u, b') \<Rightarrow> serialize_items vs b') b
          (encoding v @ concat (map encoding vs))"
  proof (rule wrote_seq)
    show "buf_pos b \<le> length (buf_data b)" by (rule Cons.prems(2))
    show "wrote (serialize v b) b (encoding v)"
      using Cons.prems by simp
    show "wrote (serialize_items vs b1) b1 (concat (map encoding vs))"
      if "buf_pos b1 \<le> length (buf_data b1)" for b1
      using Cons.IH [OF _ that] Cons.prems(1) by simp
  qed
  then show ?case by simp
qed

lemma wrote_serialize:
  "buf_pos b \<le> length (buf_data b) \<Longrightarrow> wrote (serialize v b) b (encoding v)"
proof (induction v arbitrary: b)
  case (Prim bytes)
  then show ?case by (simp add: wrote_write_bytes)
next
  case (Str str)
  have "wrote (case CompactSize_serialize (of_nat (length str)) b of
                 (Inl e, b') \<Rightarrow> (Inl e, b') | (Inr u, b') \<Rightarrow> write_bytes str b') b
          (compact_bytes (of_nat (length str)) @ str)"
    using Str by (intro wrote_seq wrote_CompactSize wrote_write_bytes)
  then show ?case by simp
next
  case (Vec vec)
  have "wrote (case CompactSize_serialize (of_nat (length vec)) b of
                 (Inl e, b') \<Rightarrow> (Inl e, b') | (Inr u, b') \<Rightarrow> serialize_items vec b') b
          (compact_bytes (of_nat (length vec)) @ concat (map encoding vec))"
    using Vec by (intro wrote_seq wrote_CompactSize wrote_serialize_items)
  then show ?case by simp
next
  case (Arr arr)
  then show ?case by (simp add: wrote_write_bytes)
qed

lemma to_bytes_encoding:
  "to_bytes v = (if length (encoding v) \<le> 1024 then Inr (encoding v) else Inl buffer_overflow)"
proof -
  have "wrote (serialize v (Buffer_of (replicate 1024 0))) (Buffer_of (replicate 1024 0)) (encoding v)"
    by (rule wrote_serialize) (simp add: Buffer_of_def)
  then show ?thesis
    by (cases "serialize v (Buffer_of (replicate 1024 0))")
      (auto simp: to_bytes_def wrote_def Buffer_of_def remaining_def position_def)
qed


lemma CompactSize_roundtrip_fresh:
  assumes "encoded_size n \<le> length d"
  shows "\<exists>b. CompactSize_serialize n (Buffer_of d) = (Inr (), b)
             \<and> position b = encoded_size n
             \<and> CompactSize_deserialize (reset b) =
                 (if unat n \<le> MAX_SIZE then Inr n else Inl size_too_large, b)"
proof -
  define b where "b = \<lparr>buf_data = compact_bytes n @ drop (encoded_size n) d,
                         buf_pos = encoded_size n\<rparr>"
  have "wrote (CompactSize_serialize n (Buffer_of d)) (Buffer_of d) (compact_bytes n)"
    by (rule wrote_CompactSize) (simp add: Buffer_of_def)
  then have s: "CompactSize_serialize n (Buffer_of d) = (Inr (), b)"
    using assms
    by (simp add: wrote_def length_compact_bytes Buffer_of_def remaining_def b_def)
  have "CompactSize_deserialize (reset b) =
          (if unat n \<le> MAX_SIZE then Inr n else Inl size_too_large, b)"
    using CompactSize_deserialize_bytes [of n "drop (encoded_size n) d"]
    by (simp add: reset_def b_def)
  with s show ?thesis
    by (auto simp: position_def b_def)
qed

lemma encoded_size_table:
  "encoded_size n =
     (if unat n < 253 then 1 else if unat n \<le> 0xFFFF then 3
      else if unat n \<le> 0xFFFFFFFF then 5 else 9)"
  by (simp add: encoded_size_def word_less_nat_alt word_le_nat_alt)

text \<open>
  C6, as stated, fails: 33,554,433 is encoded in 5 bytes, and decoding those bytes
  fails with \<open>size_too_large\<close>.
\<close>

theorem CompactSize_roundtrip_counterexample:
  "fst (CompactSize_deserialize
          (reset (snd (CompactSize_serialize 33554433 (Buffer_of (replicate 5 0))))))
     = Inl size_too_large"
proof -
  have "encoded_size 33554433 \<le> length (replicate 5 (0 :: byte_t))"
    by (simp add: encoded_size_def)
  from CompactSize_roundtrip_fresh [OF this] show ?thesis
    by (auto simp: MAX_SIZE_def)
qed

text \<open>
  C6, amended: for every 64-bit \<open>n\<close>, serializing \<open>CompactSize(n)\<close> into a buffer
  with room writes 1 byte when \<open>n < 253\<close>, 3 bytes when \<open>n \<le> 0xFFFF\<close>, 5 bytes
  when \<open>n \<le> 0xFFFFFFFF\<close> and 9 bytes otherwise; deserializing what was written
  yields \<open>n\<close> when \<open>n \<le> MAX_SIZE = 0x02000000\<close> and fails with
  \<open>size_too_large\<close> when \<open>n\<close> is larger.
\<close>

theorem CompactSize_roundtrip:
  assumes "encoded_size n \<le> length d"
  shows "(\<exists>b. CompactSize_serialize n (Buffer_of d) = (Inr (), b)
              \<and> position b = encoded_size n
              \<and> CompactSize_deserialize (reset b) =
                  (if unat n \<le> MAX_SIZE then Inr n else Inl size_too_large, b))
         \<and> encoded_size n =
             (if unat n < 253 then 1 else if unat n \<le> 0xFFFF then 3
              else if unat n \<le> 0xFFFFFFFF then 5 else 9)"
  using CompactSize_roundtrip_fresh [OF assms] encoded_size_table [of n] by blast

theorem CompactSize_roundtrip_witness:
  "encoded_size 300 \<le> length (replicate 4 (7 :: byte_t))
   \<and> (\<exists>b. CompactSize_serialize 300 (Buffer_of (replicate 4 7)) = (Inr (), b)
            \<and> position b = 3 \<and> CompactSize_deserialize (reset b) = (Inr 300, b))"
proof -
  have h: "encoded_size 300 \<le> length (replicate 4 (7 :: byte_t))"
    and e: "encoded_size 300 = 3" and m: "(300 :: nat) \<le> MAX_SIZE"
    by (simp_all add: encoded_size_def MAX_SIZE_def)
  show ?thesis
    using h CompactSize_roundtrip [OF h] by (simp add: e m)
qed

text \<open>
  C10: \<open>to_bytes\<close> fails with \<open>buffer_overflow\<close> on every value whose encoding is
  longer than 1024 bytes.
\<close>

theorem to_bytes_overflow:
  assumes "1024 < length (encoding v)"
  shows "to_bytes v = Inl buffer_overflow"
  using assms by (simp add: to_bytes_encoding)

theorem to_bytes_overflow_witness:
  "1024 < length (encoding (Vec [Str (replicate 1020 0), Prim [1, 2]]))
   \<and> to_bytes (Vec [Str (replicate 1020 0), Prim [1, 2]]) = Inl buffer_overflow"
proof -
  have h: "1024 < length (encoding (Vec [Str (replicate 1020 0), Prim [1, 2]]))"
    by (simp add: length_compact_bytes encoded_size_def)
  show ?thesis
    using h to_bytes_overflow [OF h] by simp
qed

section \<open>Participant registry and lottery\<close>

text \<open>
  What \<open>getActiveParticipants\<close> returns: the registered entries whose stake has matured,
  in registration order.  The amounts do not enter: replacing every amount leaves the
  same entries selected.
\<close>

lemma getActiveParticipants_matured:
  "(p \<in> set (getActiveParticipants v H))
     = (p \<in> set (activeParticipants v) \<and> sint (H - height p) \<ge> STAKE_MATURITY)"
  by (auto simp: getActiveParticipants_def isMatured_def)

lemma getActiveParticipants_amounts:
  "getActiveParticipants (v\<lparr>activeParticipants := map (\<lambda>p. p\<lparr>amount := a\<rparr>) (activeParticipants v)\<rparr>) H
     = map (\<lambda>p. p\<lparr>amount := a\<rparr>) (getActiveParticipants v H)"
  by (simp add: getActiveParticipants_def isMatured_def filter_map o_def)

lemma getActiveParticipants_staked:
  assumes "\<forall>p \<in> set (activeParticipants v). amount p \<ge> MINIMUM_STAKE"
  shows "getActiveParticipants v H
           = filter (\<lambda>p. amount p \<ge> MINIMUM_STAKE \<and> sint (H - height p) \<ge> STAKE_MATURITY)
               (activeParticipants v)"
proof -
  have "filter (\<lambda>p. isMatured p H) ps
          = filter (\<lambda>p. amount p \<ge> MINIMUM_STAKE \<and> sint (H - height p) \<ge> STAKE_MATURITY) ps"
    if "\<forall>p \<in> set ps. amount p \<ge> MINIMUM_STAKE" for ps
    using that by (induction ps) (simp_all add: isMatured_def)
  with assms show ?thesis by (simp add: getActiveParticipants_def)
qed

text \<open>
  The difference of the heights is the 32-bit one: an entry registered at height -1 has
  not matured at height \<open>2 ^ 31 - 1\<close>.
\<close>

lemma isMatured_wraps:
  "\<not> isMatured \<lparr>txid = 1, amount = 0, address = 1, height = - 1\<rparr> 2147483647"
  by (simp add: isMatured_def STAKE_MATURITY_def)


lemma selectWinner_one: "selectWinner hash64 seed [p] H = Some p"
  by (simp add: selectWinner_def)

text \<open>
  C3: the draw does not compare the stake with \<open>MINIMUM_STAKE\<close>.  An entry registered at
  height 0 is the one active participant at height 1440 whatever its amount, an amount
  of 0 included, and its address wins the draw there whatever the hash is;
  \<open>ValidateParticipation\<close> refuses a wallet of balance 0 that meets every other
  requirement.
\<close>

theorem getActiveParticipants_unstaked:
  "(\<forall>a. getActiveParticipants
          (addParticipant \<lparr>txid = 1, amount = a, address = 1, height = 0\<rparr>
             ParticipationValidator_init) 1440
        = [\<lparr>txid = 1, amount = a, address = 1, height = 0\<rparr>])
   \<and> amount \<lparr>txid = 1, amount = 0, address = 1, height = 0\<rparr> < MINIMUM_STAKE
   \<and> (\<forall>hash64 seed.
        checkParticipation hash64
          (addParticipant \<lparr>txid = 1, amount = 0, address = 1, height = 0\<rparr>
             ParticipationValidator_init) 1 seed 1440)
   \<and> (\<forall>now. ValidateParticipation now
        \<lparr>balance = 0, coin_age_blocks = 1440, transaction_count = 10,
         unique_counterparties = 5, last_transaction = now, first_seen = 0,
         uptime_ratio = 1, transactions_relayed = 0, ip_address = 0\<rparr>
        = Inl InsufficientStake)"
proof -
  have g: "getActiveParticipants
          (addParticipant \<lparr>txid = 1, amount = a, address = 1, height = 0\<rparr>
             ParticipationValidator_init) 1440
        = [\<lparr>txid = 1, amount = a, address = 1, height = 0\<rparr>]" for a
    by (simp add: getActiveParticipants_def addParticipant_def ParticipationValidator_init_def
        isMatured_def STAKE_MATURITY_def)
  have c: "checkParticipation hash64
          (addParticipant \<lparr>txid = 1, amount = 0, address = 1, height = 0\<rparr>
             ParticipationValidator_init) 1 seed 1440" for hash64 seed
    by (simp add: checkParticipation_def g selectWinner_one)
  have s: "amount \<lparr>txid = 1, amount = 0, address = 1 :: 160 word, height = 0 :: 32 word\<rparr>
             < MINIMUM_STAKE"
    by (simp add: MINIMUM_STAKE_def COIN_def)
  have w: "ValidateParticipation now
        \<lparr>balance = 0, coin_age_blocks = 1440, transaction_count = 10,
         unique_counterparties = 5, last_transaction = now, first_seen = 0,
         uptime_ratio = 1, transactions_relayed = 0, ip_address = 0\<rparr>
        = Inl InsufficientStake" for now
    by (simp add: ValidateParticipation_def pop_MINIMUM_STAKE_def COIN_def)
  from g c s w show ?thesis by blast
qed

subsection \<open>The lottery\<close>
















section \<open>Peer connection\<close>

lemma PushMessage_flags [simp]:
  "version_sent (PushMessage c p n) = version_sent n"
  "version_received (PushMessage c p n) = version_received n"
  by (simp_all add: PushMessage_def split: sum.splits)

lemma peer_step_flags:
  "version_sent (peer_step n ev) = (version_sent n \<or> (\<exists>v. ev = Sends_version v))"
  "version_received (peer_step n ev) = (version_received n \<or> (\<exists>p. ev = Receives ''version'' p))"
  by (cases ev; simp add: PushVersion_def ProcessMessage_def)+

lemma foldl_peer_step_flags:
  "version_sent (foldl peer_step n evs)
     = (version_sent n \<or> (\<exists>v. Sends_version v \<in> set evs))"
  "version_received (foldl peer_step n evs)
     = (version_received n \<or> (\<exists>p. Receives ''version'' p \<in> set evs))"
  by (induction evs arbitrary: n; auto simp: peer_step_flags)+

text \<open>
  C9, as stated, fails: a node that has sent its version and received the peer's is
  fully connected though no verack has arrived, and a node that has received both a
  version and a verack but has not sent its version is not.
\<close>

theorem IsFullyConnected_counterexample:
  "IsFullyConnected (peer_run [Sends_version (Arr []), Receives ''version'' []])
   \<and> \<not> IsFullyConnected (peer_run [Receives ''version'' [], Receives ''verack'' []])"
  unfolding peer_run_def IsFullyConnected_def foldl_peer_step_flags
  by (simp add: Node_init_def)

text \<open>
  C9, amended: after any sequence of events a connection is fully connected exactly
  when the node has sent its version message and a version message has been received, in
  either order; a verack changes nothing.
\<close>

theorem IsFullyConnected_iff:
  "IsFullyConnected (peer_run evs)
     = ((\<exists>v. Sends_version v \<in> set evs) \<and> (\<exists>p. Receives ''version'' p \<in> set evs))
   \<and> ProcessMessage ''verack'' payload n = n"
  unfolding peer_run_def IsFullyConnected_def foldl_peer_step_flags
  by (simp add: Node_init_def ProcessMessage_def)

section \<open>Block check\<close>




section \<open>Block space\<close>

lemma total_size_foldl:
  "foldl (\<lambda>sum tx. sum + size_bytes tx) a txs = a + total_size txs"
proof (induction txs arbitrary: a)
  case Nil
  then show ?case by (simp add: total_size_def)
next
  case (Cons c cs)
  show ?case
    using Cons.IH [of "a + size_bytes c"] Cons.IH [of "size_bytes c"]
    by (simp add: total_size_def add.assoc)
qed

lemma total_size_Cons: "total_size (c # cs) = size_bytes c + total_size cs"
  using total_size_foldl [of "size_bytes c" cs] by (simp add: total_size_def)

lemma fill_free_zone_bound:
  "used \<le> FREE_ZONE_SIZE \<Longrightarrow> used + total_size (fill_free_zone cs used) \<le> FREE_ZONE_SIZE"
proof (induction cs arbitrary: used)
  case Nil
  then show ?case by (simp add: total_size_def)
next
  case (Cons c cs)
  show ?case
  proof (cases "used + size_bytes c \<le> FREE_ZONE_SIZE")
    case True
    from Cons.IH [OF True] True show ?thesis
      by (simp add: total_size_Cons add.assoc)
  next
    case False
    with Cons.prems show ?thesis by (simp add: total_size_def)
  qed
qed

lemma FREE_ZONE_SIZE_value: "FREE_ZONE_SIZE = 1600000"
  by (simp add: FREE_ZONE_SIZE_def consensus_MAX_BLOCK_SIZE_def)

lemma unat_FREE_ZONE_SIZE: "unat FREE_ZONE_SIZE = 32000000 * 5 div 100"
  by (simp add: FREE_ZONE_SIZE_value)

lemma fill_free_zone_exact:
  assumes "\<forall>c \<in> set cs. unat (size_bytes c) \<le> 2 ^ 64 - 1 - 1600000"
    and "unat used \<le> 1600000"
  shows "unat used + sum_list (map (\<lambda>c. unat (size_bytes c)) (fill_free_zone cs used)) \<le> 1600000"
  using assms
proof (induction cs arbitrary: used)
  case Nil
  then show ?case by simp
next
  case (Cons c cs)
  show ?case
  proof (cases "used + size_bytes c \<le> FREE_ZONE_SIZE")
    case True
    have "unat used + unat (size_bytes c) < 2 ^ 64"
      using Cons.prems by simp
    then have u: "unat (used + size_bytes c) = unat used + unat (size_bytes c)"
      by (simp add: unat_word_ariths)
    have "unat (used + size_bytes c) \<le> 1600000"
      using True by (simp add: word_le_nat_alt FREE_ZONE_SIZE_value)
    from Cons.IH [OF _ this] Cons.prems(1) True u show ?thesis
      by simp
  next
    case False
    with Cons.prems show ?thesis by simp
  qed
qed


lemma SelectFreeTransactions_bound:
  "total_size (SelectFreeTransactions sort_free m) \<le> FREE_ZONE_SIZE"
  using fill_free_zone_bound [of 0] by (simp add: SelectFreeTransactions_def Let_def)

lemma sorts_with_set:
  assumes "sorts_with before srt"
  shows "set (srt xs) = set xs"
  using assms unfolding sorts_with_def by (metis mset_eq_setD)




lemma sorts_with_sum_list:
  fixes f :: "'a \<Rightarrow> int"
  assumes "sorts_with before srt"
  shows "sum_list (map f (srt xs)) = sum_list (map f xs)"
proof -
  have "mset (map f (srt xs)) = mset (map f xs)"
    using assms unfolding sorts_with_def by simp
  then show ?thesis by (metis sum_mset_sum_list)
qed



text \<open>
  Where no candidate's size is within \<open>FREE_ZONE_SIZE\<close> of \<open>2 ^ 64\<close>, the running total
  cannot wrap and the sizes selected sum to at most \<open>FREE_ZONE_SIZE\<close>.
\<close>

lemma SelectFreeTransactions_exact:
  assumes "sorts_with by_priority sort_free"
    and "\<forall>c \<in> set m. unat (size_bytes c) \<le> 2 ^ 64 - 1 - 1600000"
  shows "sum_list (map (\<lambda>c. unat (size_bytes c)) (SelectFreeTransactions sort_free m)) \<le> 1600000"
proof -
  let ?xs = "sort_free (filter (\<lambda>c. qualifies_for_free (priority_info c)) m)"
  have "\<forall>c \<in> set ?xs. unat (size_bytes c) \<le> 2 ^ 64 - 1 - 1600000"
    using assms(2) by (simp add: sorts_with_set [OF assms(1)])
  from fill_free_zone_exact [OF this, of 0] show ?thesis
    by (simp add: SelectFreeTransactions_def Let_def)
qed

lemma BuildBlockTemplate_free:
  assumes "BuildBlockTemplate sort_free sort_fee m = Some t"
  shows "free_transactions t = SelectFreeTransactions sort_free m"
  using assms
  by (auto simp: BuildBlockTemplate_def Let_def split: option.splits if_splits)

lemma fill_fee_zone_fees:
  assumes "\<forall>c \<in> set cs. 0 < fee_paid c"
  shows "0 \<le> sum_list (map fee_paid (fill_fee_zone cs used avail))
         \<and> sum_list (map fee_paid (fill_fee_zone cs used avail)) \<le> sum_list (map fee_paid cs)"
  using assms
proof (induction cs arbitrary: used)
  case Nil
  then show ?case by simp
next
  case (Cons c cs)
  have c: "0 < fee_paid c" and r: "\<forall>c \<in> set cs. 0 < fee_paid c"
    using Cons.prems by simp_all
  show ?case
    using Cons.IH [OF r, of used] Cons.IH [OF r, of "used + size_bytes c"] c
    by auto
qed

lemma paying_fees_filter:
  "sum_list (map fee_paid (filter (\<lambda>c. 0 < fee_paid c) (filter P xs)))
     \<le> sum_list (map fee_paid (filter (\<lambda>c. 0 < fee_paid c) xs))"
  by (induction xs) auto

text \<open>
  A template is returned whenever the comparator's fee rates are defined and the fees
  of the paying candidates sum to less than \<open>2 ^ 63\<close>.
\<close>

lemma BuildBlockTemplate_returns:
  assumes "sorts_with by_fee_rate sort_fee"
    and "\<forall>c \<in> set mempool. 0 < fee_paid c \<longrightarrow> fee_rate c \<noteq> None"
    and "sum_list (map fee_paid (filter (\<lambda>c. 0 < fee_paid c) mempool)) < 2 ^ 63"
  shows "\<exists>t. BuildBlockTemplate sort_free sort_fee mempool = Some t"
proof -
  let ?free = "SelectFreeTransactions sort_free mempool"
  let ?rem = "filter (\<lambda>candidate. \<not> list_ex (\<lambda>free_tx. tx_hash free_tx = tx_hash candidate)
                                      ?free) mempool"
  let ?pay = "filter (\<lambda>c. fee_paid c > 0) ?rem"
  let ?avail = "consensus_MAX_BLOCK_SIZE - total_size ?free"
  let ?sorted = "sort_fee ?pay"
  let ?fee = "fill_fee_zone ?sorted 0 ?avail"
  have "\<not> list_ex (\<lambda>c. fee_rate c = None) ?pay"
    using assms(2) by (auto simp: list_ex_iff)
  then have s: "SelectFeeTransactions sort_fee ?rem ?avail = Some ?fee"
    by (simp add: SelectFeeTransactions_def Let_def)
  have pos: "\<forall>c \<in> set ?sorted. 0 < fee_paid c"
    by (simp add: sorts_with_set [OF assms(1)])
  have "sum_list (map fee_paid ?sorted) = sum_list (map fee_paid ?pay)"
    using assms(1) by (rule sorts_with_sum_list)
  also have "\<dots> \<le> sum_list (map fee_paid (filter (\<lambda>c. 0 < fee_paid c) mempool))"
    by (rule paying_fees_filter)
  finally have "sum_list (map fee_paid ?sorted) < 2 ^ 63"
    using assms(3) by simp
  with fill_fee_zone_fees [OF pos, of 0 ?avail] have "in_int64 (sum_list (map fee_paid ?fee))"
    by (simp add: in_int64_def)
  with s show ?thesis
    by (simp add: BuildBlockTemplate_def Let_def)
qed

text \<open>
  The free zone of a returned template, summed in \<open>size_t\<close> as \<open>BuildBlockTemplate\<close>
  sums it, is at most \<open>FREE_ZONE_SIZE\<close>, the floor of 5% of 32,000,000; so is the sum of
  the sizes themselves when no candidate's size is within \<open>FREE_ZONE_SIZE\<close> of \<open>2 ^ 64\<close>.
\<close>

lemma BuildBlockTemplate_free_zone_bound:
  assumes "BuildBlockTemplate sort_free sort_fee mempool = Some t"
  shows "total_size (free_transactions t) \<le> FREE_ZONE_SIZE"
    and "unat FREE_ZONE_SIZE = 32000000 * 5 div 100"
    and "sorts_with by_priority sort_free \<Longrightarrow>
         \<forall>c \<in> set mempool. unat (size_bytes c) \<le> 2 ^ 64 - 1 - 1600000 \<Longrightarrow>
         sum_list (map (\<lambda>c. unat (size_bytes c)) (free_transactions t)) \<le> 32000000 * 5 div 100"
  using BuildBlockTemplate_free [OF assms] SelectFreeTransactions_bound [of sort_free mempool]
    SelectFreeTransactions_exact [of sort_free mempool] unat_FREE_ZONE_SIZE
  by simp_all



section \<open>Priority and fee admission\<close>












end
